theory Spec2Isabelle
  imports
    Main
    "HOL-Library.Char_ord"
    "HOL-Library.List_Lexorder"
    "HOL-Library.FSet"
    "HOL-Library.AList"
    "HOL-Library.Word"
begin

section \<open>The i18n commands of mmgotool (mmgotool/commands/i18n.go)\<close>

text \<open>
  The theory embeds the Go file \<^verbatim>\<open>mmgotool/commands/i18n.go\<close>: the pattern matcher
  (\<^verbatim>\<open>extractByFuncName\<close>, \<^verbatim>\<open>extractForCostants\<close>), the tree scanner (the closure given
  to \<^verbatim>\<open>ast.Inspect\<close> in \<^verbatim>\<open>extractFromPath\<close>), the walk over the two source roots
  (\<^verbatim>\<open>extractStrings\<close>), the injected identifiers (\<^verbatim>\<open>addDynamicallyGeneratedStrings\<close>),
  the catalog loader (\<^verbatim>\<open>getCurrentTranslations\<close>) and the two commands
  (\<^verbatim>\<open>extractCmdF\<close>, \<^verbatim>\<open>checkCmdF\<close>).

  Go strings are byte strings and are compared bytewise, which is the lexicographic order
  of \<^typ>\<open>string\<close> over the order of \<^typ>\<open>char\<close> by code.
\<close>

subsection \<open>Data\<close>

text \<open>
  A value of Go type \<^verbatim>\<open>interface{}\<close> as \<^verbatim>\<open>json.Unmarshal\<close> produces it: nil, bool,
  float64 (its 64 bits), string, \<^verbatim>\<open>[]interface{}\<close> and \<^verbatim>\<open>map[string]interface{}\<close>.
  The commands never look inside such a value.
\<close>

datatype gvalue =
    GNil
  | GBool bool
  | GFloat64 "64 word"
  | GString string
  | GSlice "gvalue list"
  | GMap "(string \<times> gvalue) list"

text \<open>The struct \<^verbatim>\<open>Translation\<close> (lines 23-26); the fields are \<^verbatim>\<open>Id\<close> and \<^verbatim>\<open>Translation\<close>.\<close>

record Translation =
  Id' :: string
  Translation' :: gvalue

text \<open>
  The Go errors the commands return: \<^verbatim>\<open>errors.New(msg)\<close>, an error of package os
  and an error of package encoding/json.
\<close>

datatype error =
    ErrorsNew string
  | OSError string
  | JSONError string

text \<open>A command either panics or returns its \<^verbatim>\<open>error\<close> (nil is \<open>None\<close>).\<close>

datatype outcome = Panicked | Returned "error option"

subsection \<open>The syntax tree of go/ast\<close>

text \<open>
  The token kinds that occur as \<^verbatim>\<open>BasicLit.Kind\<close> and as \<^verbatim>\<open>GenDecl.Tok\<close>
  (\<^verbatim>\<open>token.INT\<close>, ..., \<^verbatim>\<open>token.VAR\<close> of go/token).
\<close>

datatype token =
    token_INT | token_FLOAT | token_IMAG | token_CHAR | token_STRING
  | token_IMPORT | token_CONST | token_TYPE | token_VAR

text \<open>
  The nodes the scanner distinguishes, with the fields it reads, and one constructor for
  every other kind of node, holding its children in the order \<^verbatim>\<open>ast.Walk\<close> visits them.
  \<open>BasicLit kind value\<close>: the value is the literal's source text, quotes included.
  \<open>SelectorExpr x sel\<close>: \<open>sel\<close> is \<^verbatim>\<open>Sel.Name\<close>. \<open>ValueSpec names type values\<close>:
  the names are the \<^verbatim>\<open>Name\<close>s of the identifiers in \<^verbatim>\<open>Names\<close>.
\<close>

datatype node =
    BasicLit token string
  | Ident string
  | SelectorExpr node string
  | CallExpr node "node list"
  | GenDecl token "node list"
  | ValueSpec "string list" "node option" "node list"
  | OtherNode "node list"

fun children :: "node \<Rightarrow> node list" where
  "children (BasicLit kind v) = []"
| "children (Ident name) = []"
| "children (SelectorExpr x sel) = [x, Ident sel]"
| "children (CallExpr f args) = f # args"
| "children (GenDecl tok specs) = specs"
| "children (ValueSpec names ty vals) =
     map Ident names @ (case ty of None \<Rightarrow> [] | Some t \<Rightarrow> [t]) @ vals"
| "children (OtherNode ns) = ns"

text \<open>
  \<^verbatim>\<open>ast.Inspect(n, f)\<close>: calls \<open>f\<close> on the node and, when \<open>f\<close> returns true, inspects the
  children in order. The state the closure mutates is passed through. (Go then calls
  \<open>f(nil)\<close>; the closure of \<^verbatim>\<open>extractFromPath\<close> does nothing on nil.)
\<close>

function ast_Inspect :: "(node \<Rightarrow> 's \<Rightarrow> bool \<times> 's) \<Rightarrow> node \<Rightarrow> 's \<Rightarrow> 's" where
  "ast_Inspect f n s =
     (case f n s of
        (True, s') \<Rightarrow> fold (ast_Inspect f) (children n) s'
      | (False, s') \<Rightarrow> s')"
  by pat_completeness auto
termination
proof (relation "measure (\<lambda>(f, n, s). size n)")
  fix f :: "node \<Rightarrow> 's \<Rightarrow> bool \<times> 's" and n :: node and s s' :: 's and c :: node
  assume "c \<in> set (children n)"
  then have "size c < size n"
  proof (cases n)
    case (CallExpr fn args)
    assume "c \<in> set (children n)"
    with CallExpr show ?thesis
      by (auto simp: less_Suc_eq_le dest: size_list_estimation'[where f = size and y = "size c"])
  next
    case (GenDecl tok specs)
    assume "c \<in> set (children n)"
    with GenDecl show ?thesis
      by (auto simp: less_Suc_eq_le dest: size_list_estimation'[where f = size and y = "size c"])
  next
    case (ValueSpec names ty vals)
    assume "c \<in> set (children n)"
    with ValueSpec show ?thesis
      by (auto simp: less_Suc_eq_le split: option.splits
          dest: size_list_estimation'[where f = size and y = "size c"])
  next
    case (OtherNode ns)
    assume "c \<in> set (children n)"
    with OtherNode show ?thesis
      by (auto simp: less_Suc_eq_le dest: size_list_estimation'[where f = size and y = "size c"])
  qed auto
  then show "((f, c, s'), (f, n, s)) \<in> measure (\<lambda>(f, n, s). size n)" by simp
qed simp

declare ast_Inspect.simps [simp del]

subsection \<open>Strings (package strings)\<close>

definition HasPrefix :: "string \<Rightarrow> string \<Rightarrow> bool" where
  "HasPrefix s pre = (length pre \<le> length s \<and> take (length pre) s = pre)"

definition HasSuffix :: "string \<Rightarrow> string \<Rightarrow> bool" where
  "HasSuffix s suf = (length suf \<le> length s \<and> drop (length s - length suf) s = suf)"

text \<open>
  \<^verbatim>\<open>strings.Trim(s, cutset)\<close>: \<open>s\<close> without its leading and trailing characters that
  are in the cutset. The only cutset of the program is the double quote (byte 0x22).
\<close>

definition Trim :: "string \<Rightarrow> string \<Rightarrow> string" where
  "Trim s cutset =
     rev (dropWhile (\<lambda>c. c \<in> set cutset) (rev (dropWhile (\<lambda>c. c \<in> set cutset) s)))"

definition dquote :: string where
  "dquote = [CHR 0x22]"

subsection \<open>The pattern matcher\<close>

text \<open>
  The type assertion of an expression to a pointer to \<^verbatim>\<open>ast.BasicLit\<close>, followed by
  \<^verbatim>\<open>&key.Value\<close>. The kind of the literal is not read.
\<close>

fun basicLitValue :: "node \<Rightarrow> string option" where
  "basicLitValue (BasicLit kind v) = Some v"
| "basicLitValue _ = None"

text \<open>\<^verbatim>\<open>extractByFuncName\<close> (lines 248-320); the nil pointer is \<open>None\<close>.\<close>

definition extractByFuncName :: "string \<Rightarrow> node list \<Rightarrow> string option" where
  "extractByFuncName name args =
     (if name = ''T'' then
        (if length args = 0 then None else basicLitValue (args ! 0))
      else if name = ''NewAppError'' then
        (if length args < 2 then None else basicLitValue (args ! 1))
      else if name = ''newAppError'' then
        (if length args < 1 then None else basicLitValue (args ! 0))
      else if name = ''translateFunc'' then
        (if length args < 1 then None else basicLitValue (args ! 0))
      else if name = ''TranslateAsHtml'' then
        (if length args < 2 then None else basicLitValue (args ! 1))
      else if name = ''userLocale'' then
        (if length args < 1 then None else basicLitValue (args ! 0))
      else if name = ''localT'' then
        (if length args < 1 then None else basicLitValue (args ! 0))
      else None)"

text \<open>The keys of the map \<^verbatim>\<open>validConstants\<close> (lines 323-333).\<close>

definition validConstants :: "string list" where
  "validConstants =
    [''MISSING_CHANNEL_ERROR'',
     ''MISSING_CHANNEL_MEMBER_ERROR'',
     ''CHANNEL_EXISTS_ERROR'',
     ''MISSING_STATUS_ERROR'',
     ''TEAM_MEMBER_EXISTS_ERROR'',
     ''MISSING_AUTH_ACCOUNT_ERROR'',
     ''MISSING_ACCOUNT_ERROR'',
     ''EXPIRED_LICENSE_ERROR'',
     ''INVALID_LICENSE_ERROR'']"

text \<open>\<^verbatim>\<open>extractForCostants\<close> (lines 322-345).\<close>

definition extractForCostants :: "string \<Rightarrow> node \<Rightarrow> string option" where
  "extractForCostants name value_node =
     (if name \<notin> set validConstants then None else basicLitValue value_node)"

subsection \<open>The tree scanner\<close>

text \<open>
  The set \<^verbatim>\<open>i18nStrings\<close> is a Go \<^verbatim>\<open>map[string]bool\<close> in which every stored value is
  true and only the presence of a key is read: a finite set of strings.

  The body of the loop over \<^verbatim>\<open>expr.Specs\<close> (lines 390-406).
\<close>

definition constSpec :: "node \<Rightarrow> string fset \<Rightarrow> string fset" where
  "constSpec spec i18nStrings =
     (case spec of
        ValueSpec names ty vals \<Rightarrow>
          (if length names = 0 then i18nStrings
           else if length vals = 0 then i18nStrings
           else (case extractForCostants (names ! 0) (vals ! 0) of
                   None \<Rightarrow> i18nStrings
                 | Some v \<Rightarrow> finsert (Trim v dquote) i18nStrings))
      | _ \<Rightarrow> i18nStrings)"

text \<open>
  The variable \<^verbatim>\<open>id\<close> after the switch on \<^verbatim>\<open>expr.Fun\<close> (lines 374-386): the callee is a
  selector expression, whose \<^verbatim>\<open>Sel.Name\<close> is looked up, or an identifier, whose
  \<^verbatim>\<open>Name\<close> is looked up; with any other callee the closure returns at once.
\<close>

definition callExprId :: "node \<Rightarrow> node list \<Rightarrow> string option" where
  "callExprId fn args =
     (case fn of
        SelectorExpr x sel \<Rightarrow> extractByFuncName sel args
      | Ident name \<Rightarrow> extractByFuncName name args
      | _ \<Rightarrow> None)"

text \<open>
  The closure given to \<^verbatim>\<open>ast.Inspect\<close> (lines 369-418): the value it returns and the
  set after the call.
\<close>

definition inspectFunc :: "node \<Rightarrow> string fset \<Rightarrow> bool \<times> string fset" where
  "inspectFunc n i18nStrings =
     (case n of
        CallExpr fn args \<Rightarrow>
          (case callExprId fn args of
             None \<Rightarrow> (True, i18nStrings)
           | Some v \<Rightarrow> (True, finsert (Trim v dquote) i18nStrings))
      | GenDecl tok specs \<Rightarrow>
          (if tok = token_CONST then (True, fold constSpec specs i18nStrings)
           else (True, i18nStrings))
      | _ \<Rightarrow> (True, i18nStrings))"

subsection \<open>The environment and the files\<close>

text \<open>
  What the program takes from outside the repository, fixed during a run:
  \<open>Walk root\<close> is the sequence of paths on which \<^verbatim>\<open>filepath.Walk(root, walkFunc)\<close>
  calls \<^verbatim>\<open>walkFunc\<close> (which never asks to skip anything); \<open>Join\<close> is \<^verbatim>\<open>path.Join\<close>;
  \<open>ParseFile\<close> is \<^verbatim>\<open>parser.ParseFile\<close> on the bytes of a file; \<open>Unmarshal\<close> is
  \<^verbatim>\<open>json.Unmarshal\<close> into a nil slice of \<^verbatim>\<open>Translation\<close>: the slice after the call and
  the error; \<open>Marshal\<close> is the bytes that the encoder of lines 139-141 produces for a
  slice, or its error; \<open>Create\<close> is the error of \<^verbatim>\<open>os.Create\<close> on a path.
\<close>

record env =
  Walk :: "string \<Rightarrow> string list"
  Join :: "string list \<Rightarrow> string"
  ParseFile :: "string \<Rightarrow> error + node"
  Unmarshal :: "string \<Rightarrow> Translation list \<times> error option"
  Marshal :: "Translation list \<Rightarrow> error + string"
  Create :: "string \<Rightarrow> error option"

text \<open>
  What a run can change: the files (\<open>files w p\<close> is what \<^verbatim>\<open>ioutil.ReadFile(p)\<close>
  returns), the standard output, one entry for each call of \<^verbatim>\<open>fmt.Println\<close>, and the
  field \<^verbatim>\<open>SilenceUsage\<close> of the command.
\<close>

record world =
  files :: "string \<Rightarrow> error + string"
  stdout :: "string list"
  SilenceUsage :: bool

text \<open>The two flags as \<^verbatim>\<open>command.Flags().GetString\<close> returns them.\<close>

record flags =
  enterprise_dir :: "error + string"
  xenia_dir :: "error + string"

subsection \<open>Scanning the source trees\<close>

text \<open>
  \<^verbatim>\<open>extractFromPath\<close> (lines 347-420). \<open>None\<close> is a panic. The parameters
  \<^verbatim>\<open>info\<close> and \<^verbatim>\<open>err\<close> are never read.
\<close>

definition extractFromPath :: "env \<Rightarrow> world \<Rightarrow> string \<Rightarrow> string fset \<Rightarrow> string fset option" where
  "extractFromPath e w path i18nStrings =
     (if HasSuffix path ''model/client4.go'' then Some i18nStrings
      else if HasSuffix path ''_test.go'' then Some i18nStrings
      else if \<not> HasSuffix path ''.go'' then Some i18nStrings
      else (case files w path of
              Inl err \<Rightarrow> None
            | Inr src \<Rightarrow>
                (case ParseFile e src of
                   Inl err \<Rightarrow> None
                 | Inr f \<Rightarrow> Some (ast_Inspect inspectFunc f i18nStrings))))"

text \<open>The closure \<^verbatim>\<open>walkFunc\<close> of \<^verbatim>\<open>extractStrings\<close> (lines 73-78).\<close>

definition walkFunc :: "env \<Rightarrow> world \<Rightarrow> string \<Rightarrow> string \<Rightarrow> string fset \<Rightarrow> string fset option" where
  "walkFunc e w xeniaDir p i18nStrings =
     (if HasPrefix p (Join e [xeniaDir, ''vendor'']) then Some i18nStrings
      else extractFromPath e w p i18nStrings)"

text \<open>\<^verbatim>\<open>filepath.Walk\<close> with a function that returns nil or panics.\<close>

fun walkPaths :: "(string \<Rightarrow> 's \<Rightarrow> 's option) \<Rightarrow> string list \<Rightarrow> 's \<Rightarrow> 's option" where
  "walkPaths f [] s = Some s"
| "walkPaths f (p # ps) s =
     (case f p s of None \<Rightarrow> None | Some s' \<Rightarrow> walkPaths f ps s')"

text \<open>\<^verbatim>\<open>extractStrings\<close> (lines 71-82).\<close>

definition extractStrings :: "env \<Rightarrow> world \<Rightarrow> string \<Rightarrow> string \<Rightarrow> string fset option" where
  "extractStrings e w enterpriseDir xeniaDir =
     (case walkPaths (walkFunc e w xeniaDir) (Walk e xeniaDir) {||} of
        None \<Rightarrow> None
      | Some i18nStrings \<Rightarrow>
          walkPaths (walkFunc e w xeniaDir) (Walk e enterpriseDir) i18nStrings)"

subsection \<open>The injected identifiers\<close>

text \<open>The keys that \<^verbatim>\<open>addDynamicallyGeneratedStrings\<close> sets, in order (lines 204-245).\<close>

definition dynamicallyGeneratedStrings :: "string list" where
  "dynamicallyGeneratedStrings =
    [''model.user.is_valid.pwd.app_error'',
     ''model.user.is_valid.pwd_lowercase.app_error'',
     ''model.user.is_valid.pwd_lowercase_number.app_error'',
     ''model.user.is_valid.pwd_lowercase_number_symbol.app_error'',
     ''model.user.is_valid.pwd_lowercase_symbol.app_error'',
     ''model.user.is_valid.pwd_lowercase_uppercase.app_error'',
     ''model.user.is_valid.pwd_lowercase_uppercase_number.app_error'',
     ''model.user.is_valid.pwd_lowercase_uppercase_number_symbol.app_error'',
     ''model.user.is_valid.pwd_lowercase_uppercase_symbol.app_error'',
     ''model.user.is_valid.pwd_number.app_error'',
     ''model.user.is_valid.pwd_number_symbol.app_error'',
     ''model.user.is_valid.pwd_symbol.app_error'',
     ''model.user.is_valid.pwd_uppercase.app_error'',
     ''model.user.is_valid.pwd_uppercase_number.app_error'',
     ''model.user.is_valid.pwd_uppercase_number_symbol.app_error'',
     ''model.user.is_valid.pwd_uppercase_symbol.app_error'',
     ''model.user.is_valid.id.app_error'',
     ''model.user.is_valid.create_at.app_error'',
     ''model.user.is_valid.update_at.app_error'',
     ''model.user.is_valid.username.app_error'',
     ''model.user.is_valid.email.app_error'',
     ''model.user.is_valid.nickname.app_error'',
     ''model.user.is_valid.position.app_error'',
     ''model.user.is_valid.first_name.app_error'',
     ''model.user.is_valid.last_name.app_error'',
     ''model.user.is_valid.auth_data.app_error'',
     ''model.user.is_valid.auth_data_type.app_error'',
     ''model.user.is_valid.auth_data_pwd.app_error'',
     ''model.user.is_valid.password_limit.app_error'',
     ''model.user.is_valid.locale.app_error'',
     ''January'',
     ''February'',
     ''March'',
     ''April'',
     ''May'',
     ''June'',
     ''July'',
     ''August'',
     ''September'',
     ''October'',
     ''November'',
     ''December'']"

definition addDynamicallyGeneratedStrings :: "string fset \<Rightarrow> string fset" where
  "addDynamicallyGeneratedStrings i18nStrings = fold finsert dynamicallyGeneratedStrings i18nStrings"

subsection \<open>The catalog\<close>

text \<open>\<^verbatim>\<open>getCurrentTranslations\<close> (lines 61-69): the error of the decoder is dropped.\<close>

definition getCurrentTranslations :: "env \<Rightarrow> world \<Rightarrow> string \<Rightarrow> error + Translation list" where
  "getCurrentTranslations e w xeniaDir =
     (case files w (Join e [xeniaDir, ''i18n'', ''en.json'']) of
        Inl err \<Rightarrow> Inl err
      | Inr jsonFile \<Rightarrow> Inr (fst (Unmarshal e jsonFile)))"

subsection \<open>Reconciling the discovered identifiers with the catalog\<close>

text \<open>
  The map \<^verbatim>\<open>resultMap\<close> is a Go \<^verbatim>\<open>map[string]Translation\<close>: an association list
  with one pair for each key, written with \<open>AList.update\<close> and \<open>AList.delete\<close>.
  A \<^verbatim>\<open>range\<close> over a Go map yields the entries in an unspecified order; the model
  yields them in the order of the list, and \<open>reconcile_any_range_order\<close> below shows that
  the order does not matter for the sorted result.

  The first loop of \<^verbatim>\<open>extractCmdF\<close> (lines 108-115): \<^verbatim>\<open>translationsList\<close>,
  \<^verbatim>\<open>idx\<close> and \<^verbatim>\<open>resultMap\<close> after it.
\<close>

definition indexTranslations ::
  "Translation list \<Rightarrow> string list \<times> string fset \<times> (string \<times> Translation) list" where
  "indexTranslations translations =
     fold (\<lambda>t (translationsList, idx, resultMap).
             (translationsList @ [Id' t], finsert (Id' t) idx, AList.update (Id' t) t resultMap))
       translations ([], {||}, [])"

text \<open>
  Lines 97-134 of \<^verbatim>\<open>extractCmdF\<close>: the slice \<^verbatim>\<open>result\<close> that is given to the encoder,
  from the set \<^verbatim>\<open>i18nStrings\<close> (after the injection) and the loaded catalog.
  \<^verbatim>\<open>sort.Strings\<close> is \<open>sort\<close>; \<^verbatim>\<open>sort.Slice\<close> with the comparison of the \<^verbatim>\<open>Id\<close>
  fields is \<open>sort_key Id'\<close>.
\<close>

definition reconcile :: "string fset \<Rightarrow> Translation list \<Rightarrow> Translation list" where
  "reconcile i18nStrings translations =
     (let i18nStringsList = sorted_list_of_fset i18nStrings;
          (translationsList0, idx, resultMap0) = indexTranslations translations;
          translationsList = sort translationsList0;
          resultMap1 =
            fold (\<lambda>translationKey resultMap.
                    if translationKey |\<notin>| idx
                    then AList.update translationKey
                           \<lparr>Id' = translationKey, Translation' = GString ''''\<rparr> resultMap
                    else resultMap)
              i18nStringsList resultMap0;
          resultMap2 =
            fold (\<lambda>translationKey resultMap.
                    if translationKey |\<notin>| i18nStrings
                    then AList.delete translationKey resultMap
                    else resultMap)
              translationsList resultMap1;
          result = map snd resultMap2
      in sort_key Id' result)"

text \<open>The map \<^verbatim>\<open>resultMap\<close> after the third loop (line 128), as \<open>reconcile\<close> computes it.\<close>

definition resultMap_of :: "string fset \<Rightarrow> Translation list \<Rightarrow> (string \<times> Translation) list" where
  "resultMap_of D ts =
       (fold (\<lambda>k m. if k |\<notin>| D then AList.delete k m else m) (sort (map Id' ts))
         (fold (\<lambda>k m. if k |\<notin>| fset_of_list (map Id' ts)
                        then AList.update k \<lparr>Id' = k, Translation' = GString ''''\<rparr> m else m)
            (sorted_list_of_fset D)
            (fold (\<lambda>t. AList.update (Id' t) t) ts [])))"

text \<open>
  \<^verbatim>\<open>fmt.Println\<close> on strings: the operands separated by spaces, and a newline.
\<close>

fun Println :: "string list \<Rightarrow> string" where
  "Println [] = [CHR 0x0A]"
| "Println [x] = x @ [CHR 0x0A]"
| "Println (x # y # ys) = x @ '' '' @ Println (y # ys)"

text \<open>
  Lines 163-200 of \<^verbatim>\<open>checkCmdF\<close>: what is printed, in order, and the error returned,
  from the set \<^verbatim>\<open>i18nStrings\<close> (after the injection) and the loaded catalog.
\<close>

definition checkTranslations :: "string fset \<Rightarrow> Translation list \<Rightarrow> string list \<times> error option" where
  "checkTranslations i18nStrings translations =
     (let i18nStringsList = sorted_list_of_fset i18nStrings;
          (translationsList0, idx) =
            fold (\<lambda>t (translationsList, idx). (translationsList @ [Id' t], finsert (Id' t) idx))
              translations ([], {||});
          translationsList = sort translationsList0;
          (out1, changed1) =
            fold (\<lambda>translationKey (out, changed).
                    if translationKey |\<notin>| idx
                    then (out @ [Println [''Added:'', translationKey]], True)
                    else (out, changed))
              i18nStringsList ([], False);
          (out2, changed2) =
            fold (\<lambda>translationKey (out, changed).
                    if translationKey |\<notin>| i18nStrings
                    then (out @ [Println [''Removed:'', translationKey]], True)
                    else (out, changed))
              translationsList (out1, changed1)
      in (out2, if changed2 then Some (ErrorsNew ''Translations file out of date.'') else None))"

subsection \<open>The commands\<close>

text \<open>
  \<^verbatim>\<open>extractCmdF\<close> (lines 84-148). The error of \<^verbatim>\<open>os.Create\<close> is not looked at: when
  it fails the file is nil, nothing is truncated, and \<^verbatim>\<open>Encode\<close> returns the error of
  the marshalling or of the write to the nil file. When it succeeds the file is truncated;
  \<^verbatim>\<open>Encode\<close> marshals first and writes then. A write to a created file is taken to
  succeed.
\<close>

definition extractCmdF :: "env \<Rightarrow> flags \<Rightarrow> world \<Rightarrow> outcome \<times> world" where
  "extractCmdF e fl w =
     (case enterprise_dir fl of
        Inl err \<Rightarrow> (Returned (Some (ErrorsNew ''Invalid enterprise-dir parameter'')), w)
      | Inr enterpriseDir \<Rightarrow>
     (case xenia_dir fl of
        Inl err \<Rightarrow> (Returned (Some (ErrorsNew ''Invalid xenia-dir parameter'')), w)
      | Inr xeniaDir \<Rightarrow>
     (case extractStrings e w enterpriseDir xeniaDir of
        None \<Rightarrow> (Panicked, w)
      | Some strs \<Rightarrow>
          (let i18nStrings = addDynamicallyGeneratedStrings strs in
           case getCurrentTranslations e w xeniaDir of
             Inl err \<Rightarrow> (Returned (Some err), w)
           | Inr translations \<Rightarrow>
               (let result = reconcile i18nStrings translations;
                    p = Join e [xeniaDir, ''i18n'', ''en.json'']
                in case Create e p of
                     Some err \<Rightarrow>
                       (case Marshal e result of
                          Inl err' \<Rightarrow> (Returned (Some err'), w)
                        | Inr b \<Rightarrow> (Returned (Some (OSError ''invalid argument'')), w))
                   | None \<Rightarrow>
                       (let w1 = w\<lparr>files := (files w)(p := Inr [])\<rparr> in
                        case Marshal e result of
                          Inl err' \<Rightarrow> (Returned (Some err'), w1)
                        | Inr b \<Rightarrow> (Returned None, w1\<lparr>files := (files w1)(p := Inr b)\<rparr>)))))))"

text \<open>\<^verbatim>\<open>checkCmdF\<close> (lines 150-201).\<close>

definition checkCmdF :: "env \<Rightarrow> flags \<Rightarrow> world \<Rightarrow> outcome \<times> world" where
  "checkCmdF e fl w =
     (case enterprise_dir fl of
        Inl err \<Rightarrow> (Returned (Some (ErrorsNew ''Invalid enterprise-dir parameter'')), w)
      | Inr enterpriseDir \<Rightarrow>
     (case xenia_dir fl of
        Inl err \<Rightarrow> (Returned (Some (ErrorsNew ''Invalid xenia-dir parameter'')), w)
      | Inr xeniaDir \<Rightarrow>
     (case extractStrings e w enterpriseDir xeniaDir of
        None \<Rightarrow> (Panicked, w)
      | Some strs \<Rightarrow>
          (let i18nStrings = addDynamicallyGeneratedStrings strs in
           case getCurrentTranslations e w xeniaDir of
             Inl err \<Rightarrow> (Returned (Some err), w)
           | Inr translations \<Rightarrow>
               (case checkTranslations i18nStrings translations of
                  (out, None) \<Rightarrow> (Returned None, w\<lparr>stdout := stdout w @ out\<rparr>)
                | (out, Some err) \<Rightarrow>
                    (Returned (Some err),
                     w\<lparr>stdout := stdout w @ out, SilenceUsage := True\<rparr>))))))"

subsection \<open>An example\<close>

text \<open>
  A source file with the calls and the constant of the scenarios: a constant of the
  allow-list, a call of \<^verbatim>\<open>T\<close> with a literal, a call of \<^verbatim>\<open>model.NewAppError\<close> with a literal
  second argument and a call of \<^verbatim>\<open>T\<close> with a variable; a catalog with a structured value,
  an entry that the code no longer uses and an identifier that occurs twice; and an
  environment with these files, in which the decoder knows the bytes of two catalogs.
\<close>

definition example_file :: node where
  "example_file =
     OtherNode
       [Ident ''app'',
        GenDecl token_CONST
          [ValueSpec [''MISSING_CHANNEL_ERROR''] None
             [BasicLit token_STRING (dquote @ ''store.sql_channel.missing.app_error'' @ dquote)]],
        OtherNode
          [Ident ''f'',
           OtherNode [],
           OtherNode
             [OtherNode [CallExpr (Ident ''T'') [BasicLit token_STRING (dquote @ ''foo.bar'' @ dquote)]],
              OtherNode
                [CallExpr (SelectorExpr (Ident ''model'') ''NewAppError'')
                   [BasicLit token_STRING (dquote @ ''ctx'' @ dquote),
                    BasicLit token_STRING (dquote @ ''model.user.is_valid.id.app_error'' @ dquote),
                    Ident ''nil'']],
              OtherNode [CallExpr (Ident ''T'') [Ident ''someVar'']]]]]"

definition example_discovered :: "string fset" where
  "example_discovered =
     {|''model.user.is_valid.id.app_error'', ''foo.bar'', ''store.sql_channel.missing.app_error''|}"

definition example_catalog :: "Translation list" where
  "example_catalog =
     [\<lparr>Id' = ''foo.bar'', Translation' = GString ''<b>Foo</b> & bar''\<rparr>,
      \<lparr>Id' = ''May'', Translation' = GMap [(''one'', GString ''May''), (''other'', GString '''')]\<rparr>,
      \<lparr>Id' = ''removed.from.code'', Translation' = GString ''gone''\<rparr>,
      \<lparr>Id' = ''foo.bar'', Translation' = GString ''second''\<rparr>]"

definition example_result :: "Translation list" where
  "example_result = reconcile (addDynamicallyGeneratedStrings example_discovered) example_catalog"

definition example_Join :: "string list \<Rightarrow> string" where
  "example_Join elems = (case elems of [] \<Rightarrow> [] | x # xs \<Rightarrow> foldl (\<lambda>a b. a @ ''/'' @ b) x xs)"

definition example_env :: env where
  "example_env =
     \<lparr>Walk = (\<lambda>root. if root = ''src''
                then [''src'', ''src/app'', ''src/app/a.go'', ''src/app/a_test.go'',
                      ''src/i18n'', ''src/i18n/en.json'', ''src/vendor'', ''src/vendor/v.go'']
                else []),
      Join = example_Join,
      ParseFile = (\<lambda>src. if src = ''package app ...'' then Inr example_file
                   else Inl (OSError ''syntax error'')),
      Unmarshal = (\<lambda>b. if b = ''old catalog'' then (example_catalog, None)
                   else if b = ''new catalog'' then (example_result, None)
                   else ([], Some (JSONError ''unexpected end of JSON input''))),
      Marshal = (\<lambda>r. if r = example_result then Inr ''new catalog'' else Inr ''another catalog''),
      Create = (\<lambda>p. None)\<rparr>"

definition example_world :: world where
  "example_world =
     \<lparr>files = (\<lambda>p. if p = ''src/app/a.go'' then Inr ''package app ...''
                else if p = ''src/i18n/en.json'' then Inr ''old catalog''
                else Inl (OSError ''no such file or directory'')),
      stdout = [],
      SilenceUsage = False\<rparr>"

definition example_flags :: flags where
  "example_flags = \<lparr>enterprise_dir = Inr ''../enterprise'', xenia_dir = Inr ''src''\<rparr>"

section \<open>Properties\<close>

subsection \<open>The reconciliation\<close>

text \<open>The three loops of \<^verbatim>\<open>extractCmdF\<close> as functions of the map they change.\<close>

lemma indexTranslations_fold:
  "fold (\<lambda>t (translationsList, idx, resultMap).
             (translationsList @ [Id' t], finsert (Id' t) idx, AList.update (Id' t) t resultMap))
       (ts::Translation list) (ks, idx, rm) =
   (ks @ map Id' ts, idx |\<union>| fset_of_list (map Id' ts), fold (\<lambda>t. AList.update (Id' t) t) ts rm)"
  by (induction ts arbitrary: ks idx rm) auto

lemma indexTranslations_eq:
  "indexTranslations ts =
     (map Id' ts, fset_of_list (map Id' ts), fold (\<lambda>t. AList.update (Id' t) t) ts [])"
  by (simp add: indexTranslations_def indexTranslations_fold)

lemma map_of_fold_update:
  "map_of (fold (\<lambda>t. AList.update (Id' t) t) (ts::Translation list) rm) k =
     (if filter (\<lambda>t. Id' t = k) ts = [] then map_of rm k
      else Some (last (filter (\<lambda>t. Id' t = k) ts)))"
  by (induction ts arbitrary: rm) (auto simp: update_conv')

lemma distinct_fold_update:
  "distinct (map fst rm) \<Longrightarrow> distinct (map fst (fold (\<lambda>t. AList.update (f t) (g t)) ts rm))"
  by (induction ts arbitrary: rm) (auto simp: distinct_update)

lemma map_of_fold_cond_update:
  "map_of (fold (\<lambda>k m. if P k then AList.update k (g k) m else m) ks rm) x =
     (if x \<in> set ks \<and> P x then Some (g x) else map_of rm x)"
  by (induction ks arbitrary: rm) (auto simp: update_conv')

lemma distinct_fold_cond_update:
  "distinct (map fst rm) \<Longrightarrow>
   distinct (map fst (fold (\<lambda>k m. if P k then AList.update k (g k) m else m) ks rm))"
  by (induction ks arbitrary: rm) (auto simp: distinct_update)

lemma map_of_fold_cond_delete:
  "map_of (fold (\<lambda>k m. if P k then AList.delete k m else m) ks rm) x =
     (if x \<in> set ks \<and> P x then None else map_of rm x)"
  by (induction ks arbitrary: rm) (auto simp: delete_conv')

lemma distinct_fold_cond_delete:
  "distinct (map fst rm) \<Longrightarrow>
   distinct (map fst (fold (\<lambda>k m. if P k then AList.delete k m else m) ks rm))"
  by (induction ks arbitrary: rm) (auto simp: distinct_delete)

lemma reconcile_unfold:
  "reconcile D ts = sort_key Id' (map snd (resultMap_of D ts))"
  by (simp add: reconcile_def indexTranslations_eq resultMap_of_def)

lemma distinct_resultMap_of: "distinct (map fst (resultMap_of D ts))"
  unfolding resultMap_of_def
  by (intro distinct_fold_cond_delete distinct_fold_cond_update distinct_fold_update) simp

lemma map_of_resultMap_of:
  "map_of (resultMap_of D ts) k =
     (if k |\<notin>| D then None
      else if filter (\<lambda>t. Id' t = k) ts = []
        then Some \<lparr>Id' = k, Translation' = GString ''''\<rparr>
        else Some (last (filter (\<lambda>t. Id' t = k) ts)))"
  unfolding resultMap_of_def
  by (auto simp: map_of_fold_cond_delete map_of_fold_cond_update map_of_fold_update
      fset_of_list_elem filter_empty_conv)

lemma resultMap_of_Id:
  assumes "(k, t) \<in> set (resultMap_of D ts)"
  shows "Id' t = k"
proof -
  have "map_of (resultMap_of D ts) k = Some t"
    using assms distinct_resultMap_of by (rule map_of_is_SomeI[rotated])
  then consider "t = \<lparr>Id' = k, Translation' = GString ''''\<rparr>"
    | "filter (\<lambda>t. Id' t = k) ts \<noteq> []" "t = last (filter (\<lambda>t. Id' t = k) ts)"
    by (auto simp: map_of_resultMap_of split: if_splits)
  then show ?thesis
  proof cases
    case 1
    then show ?thesis by simp
  next
    case 2
    then have "t \<in> set (filter (\<lambda>t. Id' t = k) ts)"
      using last_in_set by blast
    then show ?thesis by simp
  qed
qed

lemma map_Id_resultMap_of:
  "map Id' (map snd (resultMap_of D ts)) = map fst (resultMap_of D ts)"
  by (auto dest: resultMap_of_Id)

lemma set_fst_resultMap_of: "fst ` set (resultMap_of D ts) = fset D"
proof -
  have "fst ` set (resultMap_of D ts) = dom (map_of (resultMap_of D ts))"
    by (simp add: dom_map_of_conv_image_fst)
  also have "\<dots> = fset D"
    by (auto simp: dom_def map_of_resultMap_of)
  finally show ?thesis .
qed

lemma distinct_map_sort_key:
  "distinct (map f (sort_key f xs)) = distinct (map f xs)"
  by (simp add: distinct_map)

lemma reconcile_set_Id: "Id' ` set (reconcile D ts) = fset D"
proof -
  have "Id' ` set (reconcile D ts) = set (map Id' (map snd (resultMap_of D ts)))"
    by (auto simp: reconcile_unfold)
  also have "\<dots> = fset D"
    unfolding map_Id_resultMap_of by (simp add: set_fst_resultMap_of)
  finally show ?thesis .
qed

lemma reconcile_distinct_Id: "distinct (map Id' (reconcile D ts))"
  unfolding reconcile_unfold distinct_map_sort_key map_Id_resultMap_of
  by (rule distinct_resultMap_of)

lemma reconcile_sorted_Id: "sorted (map Id' (reconcile D ts))"
  unfolding reconcile_unfold by (rule sorted_sort_key)

lemma reconcile_map_Id: "map Id' (reconcile D ts) = sorted_list_of_fset D"
proof (rule sorted_distinct_set_unique)
  show "set (map Id' (reconcile D ts)) = set (sorted_list_of_fset D)"
    by (simp add: reconcile_set_Id)
qed (simp_all add: reconcile_sorted_Id reconcile_distinct_Id sorted_list_of_fset.rep_eq)

lemma mem_reconcile:
  "t \<in> set (reconcile D ts) \<longleftrightarrow> map_of (resultMap_of D ts) (Id' t) = Some t"
proof
  assume "t \<in> set (reconcile D ts)"
  then obtain k where kt: "(k, t) \<in> set (resultMap_of D ts)"
    by (auto simp: reconcile_unfold)
  then have "Id' t = k" by (rule resultMap_of_Id)
  with kt show "map_of (resultMap_of D ts) (Id' t) = Some t"
    using distinct_resultMap_of by (simp add: map_of_is_SomeI)
next
  assume "map_of (resultMap_of D ts) (Id' t) = Some t"
  then have "(Id' t, t) \<in> set (resultMap_of D ts)" by (rule map_of_SomeD)
  then show "t \<in> set (reconcile D ts)"
    by (force simp: reconcile_unfold)
qed

lemma filter_key_unique:
  "distinct (map f xs) \<Longrightarrow> x \<in> set xs \<Longrightarrow> filter (\<lambda>u. f u = f x) xs = [x]"
proof (induction xs)
  case Nil
  then show ?case by simp
next
  case (Cons a xs)
  show ?case
  proof (cases "a = x")
    case True
    with Cons.prems have "f x \<notin> f ` set xs" by simp
    then have "\<forall>u\<in>set xs. f u \<noteq> f x" by (metis imageI)
    then have "filter (\<lambda>u. f u = f x) xs = []" by (simp add: filter_empty_conv)
    with True show ?thesis by simp
  next
    case False
    with Cons.prems have "x \<in> set xs" "f a \<noteq> f x" by auto
    with Cons show ?thesis by simp
  qed
qed

lemma reconcile_filter_Id:
  "filter (\<lambda>t. Id' t = k) (reconcile D ts) =
     (if k |\<notin>| D then []
      else if filter (\<lambda>t. Id' t = k) ts = [] then [\<lparr>Id' = k, Translation' = GString ''''\<rparr>]
      else [last (filter (\<lambda>t. Id' t = k) ts)])"
proof (cases "k |\<in>| D")
  case False
  then have "k \<notin> Id' ` set (reconcile D ts)"
    by (simp add: reconcile_set_Id)
  then have "filter (\<lambda>t. Id' t = k) (reconcile D ts) = []"
    by (auto simp: filter_empty_conv)
  with False show ?thesis by simp
next
  case True
  define t where "t = (if filter (\<lambda>t. Id' t = k) ts = [] then \<lparr>Id' = k, Translation' = GString ''''\<rparr>
      else last (filter (\<lambda>t. Id' t = k) ts))"
  have m: "map_of (resultMap_of D ts) k = Some t"
    using True by (simp add: map_of_resultMap_of t_def)
  then have "(k, t) \<in> set (resultMap_of D ts)" by (rule map_of_SomeD)
  then have k: "Id' t = k" by (rule resultMap_of_Id)
  with m have "t \<in> set (reconcile D ts)" by (simp add: mem_reconcile)
  with reconcile_distinct_Id have "filter (\<lambda>u. Id' u = Id' t) (reconcile D ts) = [t]"
    by (rule filter_key_unique)
  with k True show ?thesis by (simp add: t_def)
qed

lemma sorted_by_Id_unique:
  fixes xs ys :: "Translation list"
  assumes "sorted (map Id' xs)" "sorted (map Id' ys)" "distinct (map Id' xs)"
    and "set xs = set ys" "length xs = length ys"
  shows "xs = ys"
proof (rule map_sorted_distinct_set_unique[where f = Id'])
  from assms(3) show "inj_on Id' (set xs \<union> set ys)"
    using assms(4) by (simp add: distinct_map)
  have "distinct ys"
    using assms(3,4,5) by (metis card_distinct distinct_card distinct_map)
  with assms(3,4) show "distinct (map Id' ys)" by (simp add: distinct_map)
qed (use assms in auto)

lemma reconcile_fixpoint:
  assumes "sorted (map Id' xs)" "distinct (map Id' xs)" "Id' ` set xs = fset D"
  shows "reconcile D xs = xs"
proof (rule map_sorted_distinct_set_unique[where f = Id'])
  have mem: "t \<in> set (reconcile D xs) \<longleftrightarrow> t \<in> set xs" for t
  proof
    assume "t \<in> set (reconcile D xs)"
    then have "t \<in> set (filter (\<lambda>u. Id' u = Id' t) (reconcile D xs))" by simp
    moreover have "Id' t |\<in>| D"
      using \<open>t \<in> set (reconcile D xs)\<close> reconcile_set_Id[of D xs] by auto
    moreover from this have "filter (\<lambda>u. Id' u = Id' t) xs \<noteq> []"
      unfolding assms(3)[symmetric] by (auto simp: filter_empty_conv)
    ultimately have "t = last (filter (\<lambda>u. Id' u = Id' t) xs)"
      by (simp add: reconcile_filter_Id)
    with \<open>filter (\<lambda>u. Id' u = Id' t) xs \<noteq> []\<close> have "t \<in> set (filter (\<lambda>u. Id' u = Id' t) xs)"
      using last_in_set by metis
    then show "t \<in> set xs" by simp
  next
    assume t: "t \<in> set xs"
    with assms(2) have f: "filter (\<lambda>u. Id' u = Id' t) xs = [t]" by (rule filter_key_unique)
    from t assms(3) have "Id' t |\<in>| D" by auto
    with f have "filter (\<lambda>u. Id' u = Id' t) (reconcile D xs) = [t]"
      by (simp add: reconcile_filter_Id)
    then have "t \<in> set (filter (\<lambda>u. Id' u = Id' t) (reconcile D xs))" by simp
    then show "t \<in> set (reconcile D xs)" by simp
  qed
  then show s: "set (reconcile D xs) = set xs" by blast
  from assms(2) show "inj_on Id' (set (reconcile D xs) \<union> set xs)"
    unfolding s by (simp add: distinct_map)
qed (use assms in \<open>auto simp: reconcile_sorted_Id reconcile_distinct_Id\<close>)

lemma reconcile_idem: "reconcile D (reconcile D ts) = reconcile D ts"
  by (rule reconcile_fixpoint) (simp_all add: reconcile_sorted_Id reconcile_distinct_Id reconcile_set_Id)

text \<open>
  Whatever order the \<^verbatim>\<open>range\<close> over \<^verbatim>\<open>resultMap\<close> yields the entries in, and however
  \<^verbatim>\<open>sort.Slice\<close> arranges them, a slice that holds each entry of the map once and is
  ascending by identifier is the slice of the model.
\<close>

lemma reconcile_any_range_order:
  assumes "set ys = snd ` set (resultMap_of D ts)"
    and "length ys = length (resultMap_of D ts)"
    and "sorted (map Id' ys)"
  shows "ys = reconcile D ts"
proof (rule sorted_by_Id_unique[symmetric])
  show "sorted (map Id' (reconcile D ts))" by (rule reconcile_sorted_Id)
  show "distinct (map Id' (reconcile D ts))" by (rule reconcile_distinct_Id)
  show "set (reconcile D ts) = set ys" by (simp add: reconcile_unfold assms(1))
  show "length (reconcile D ts) = length ys" by (simp add: reconcile_unfold assms(2))
qed (rule assms(3))

subsection \<open>The report of the check\<close>

lemma checkTranslations_fold_index:
  "fold (\<lambda>t (translationsList, idx). (translationsList @ [Id' t], finsert (Id' t) idx))
     (ts::Translation list) (ks, idx) = (ks @ map Id' ts, idx |\<union>| fset_of_list (map Id' ts))"
  by (induction ts arbitrary: ks idx) auto

lemma fold_report:
  "fold (\<lambda>k (out, changed). if P k then (out @ [g k], True) else (out, changed)) ks (out, ch) =
     (out @ map g (filter P ks), ch \<or> filter P ks \<noteq> [])"
  by (induction ks arbitrary: out ch) auto

lemma checkTranslations_eq:
  "checkTranslations D ts =
     (map (\<lambda>k. Println [''Added:'', k]) (filter (\<lambda>k. k \<notin> Id' ` set ts) (sorted_list_of_fset D)) @
      map (\<lambda>k. Println [''Removed:'', k]) (filter (\<lambda>k. k |\<notin>| D) (sort (map Id' ts))),
      if filter (\<lambda>k. k \<notin> Id' ` set ts) (sorted_list_of_fset D) = [] \<and>
         filter (\<lambda>k. k |\<notin>| D) (sort (map Id' ts)) = []
      then None else Some (ErrorsNew ''Translations file out of date.''))"
  by (simp add: checkTranslations_def checkTranslations_fold_index fold_report Let_def fset_of_list.rep_eq)

lemma checkTranslations_reconcile:
  "checkTranslations i18nStrings translations =
     (map (\<lambda>k. Println [''Added:'', k])
        (filter (\<lambda>k. k \<notin> Id' ` set translations) (map Id' (reconcile i18nStrings translations))) @
      map (\<lambda>k. Println [''Removed:'', k])
        (filter (\<lambda>k. k \<notin> Id' ` set (reconcile i18nStrings translations)) (sort (map Id' translations))),
      if filter (\<lambda>k. k \<notin> Id' ` set translations) (map Id' (reconcile i18nStrings translations)) = [] \<and>
         filter (\<lambda>k. k \<notin> Id' ` set (reconcile i18nStrings translations)) (sort (map Id' translations)) = []
      then None
      else Some (ErrorsNew ''Translations file out of date.''))"
  by (simp only: checkTranslations_eq reconcile_map_Id reconcile_set_Id)

subsection \<open>The commands\<close>

lemma fold_finsert: "fold finsert xs S = S |\<union>| fset_of_list xs"
  by (induction xs arbitrary: S) auto

lemma fset_addDynamicallyGeneratedStrings:
  "fset (addDynamicallyGeneratedStrings S) = fset S \<union> set dynamicallyGeneratedStrings"
  by (simp add: addDynamicallyGeneratedStrings_def fold_finsert fset_of_list.rep_eq)

lemma extractCmdF_success:
  assumes "extractCmdF e fl w = (Returned None, w')"
  shows "\<exists>enterpriseDir xeniaDir discovered translations b.
           enterprise_dir fl = Inr enterpriseDir \<and> xenia_dir fl = Inr xeniaDir \<and>
           extractStrings e w enterpriseDir xeniaDir = Some discovered \<and>
           getCurrentTranslations e w xeniaDir = Inr translations \<and>
           Create e (Join e [xeniaDir, ''i18n'', ''en.json'']) = None \<and>
           Marshal e (reconcile (addDynamicallyGeneratedStrings discovered) translations) = Inr b \<and>
           w' = w\<lparr>files := (files w)(Join e [xeniaDir, ''i18n'', ''en.json''] := Inr b)\<rparr>"
  using assms unfolding extractCmdF_def
  by (auto simp: Let_def split: sum.splits option.splits)

lemma extractCmdF_run:
  assumes "enterprise_dir fl = Inr enterpriseDir" "xenia_dir fl = Inr xeniaDir"
    and "extractStrings e w enterpriseDir xeniaDir = Some discovered"
    and "getCurrentTranslations e w xeniaDir = Inr translations"
    and "Create e (Join e [xeniaDir, ''i18n'', ''en.json'']) = None"
    and "Marshal e (reconcile (addDynamicallyGeneratedStrings discovered) translations) = Inr b"
  shows "extractCmdF e fl w =
           (Returned None, w\<lparr>files := (files w)(Join e [xeniaDir, ''i18n'', ''en.json''] := Inr b)\<rparr>)"
  using assms unfolding extractCmdF_def by (simp add: Let_def)

lemma extractFromPath_files_cong:
  assumes "\<forall>q. HasSuffix q ''.go'' \<longrightarrow> files w' q = files w q"
  shows "extractFromPath e w' path s = extractFromPath e w path s"
  using assms by (simp add: extractFromPath_def)

lemma extractStrings_files_cong:
  assumes "\<forall>q. HasSuffix q ''.go'' \<longrightarrow> files w' q = files w q"
  shows "extractStrings e w' enterpriseDir xeniaDir = extractStrings e w enterpriseDir xeniaDir"
proof -
  have same: "walkFunc e w' xeniaDir = walkFunc e w xeniaDir"
    by (intro ext) (simp add: walkFunc_def extractFromPath_files_cong[OF assms])
  show ?thesis unfolding extractStrings_def same by (rule refl)
qed

lemma checkCmdF_run:
  assumes "enterprise_dir fl = Inr enterpriseDir" "xenia_dir fl = Inr xeniaDir"
    and "extractStrings e w enterpriseDir xeniaDir = Some discovered"
    and "getCurrentTranslations e w xeniaDir = Inr translations"
    and "checkTranslations (addDynamicallyGeneratedStrings discovered) translations = (out, err)"
  shows "fst (checkCmdF e fl w) = Returned err"
    and "stdout (snd (checkCmdF e fl w)) = stdout w @ out"
  using assms unfolding checkCmdF_def by (simp_all add: Let_def split: option.splits)

subsection \<open>The pattern matcher and the scanner\<close>

lemma basicLitValue_Some: "basicLitValue a = Some v \<longleftrightarrow> (\<exists>kind. a = BasicLit kind v)"
  by (cases a) auto

lemma extractByFuncName_Some:
  "extractByFuncName name args = Some v \<longleftrightarrow>
     (name \<in> {''T'', ''newAppError'', ''translateFunc'', ''userLocale'', ''localT''} \<and>
        (\<exists>kind rest. args = BasicLit kind v # rest)) \<or>
     (name \<in> {''NewAppError'', ''TranslateAsHtml''} \<and>
        (\<exists>a kind rest. args = a # BasicLit kind v # rest))"
proof (cases args)
  case Nil
  then show ?thesis by (simp add: extractByFuncName_def)
next
  case (Cons a rest)
  note args = Cons
  show ?thesis
  proof (cases rest)
    case Nil
    with args show ?thesis by (auto simp: extractByFuncName_def basicLitValue_Some)
  next
    case (Cons b rest')
    with args show ?thesis by (auto simp: extractByFuncName_def basicLitValue_Some)
  qed
qed

lemma last_dropWhile: "dropWhile P zs \<noteq> [] \<Longrightarrow> last (dropWhile P zs) = last zs"
  by (induction zs) (auto split: if_splits)

lemma Trim_ends:
  assumes "Trim v cutset \<noteq> []"
  shows "hd (Trim v cutset) \<notin> set cutset \<and> last (Trim v cutset) \<notin> set cutset"
proof -
  define P where "P = (\<lambda>c. c \<in> set cutset)"
  define xs where "xs = dropWhile P v"
  define ys where "ys = dropWhile P (rev xs)"
  have T: "Trim v cutset = rev ys" by (simp add: Trim_def ys_def xs_def P_def)
  with assms have ys: "ys \<noteq> []" by simp
  then have xs: "xs \<noteq> []" by (auto simp: ys_def)
  from ys have "\<not> P (hd ys)" unfolding ys_def by (rule hd_dropWhile)
  moreover from xs have "\<not> P (hd xs)" unfolding xs_def by (rule hd_dropWhile)
  moreover have "last ys = last (rev xs)" using ys unfolding ys_def by (rule last_dropWhile)
  ultimately show ?thesis using xs ys by (simp add: T P_def hd_rev last_rev)
qed

lemma Trim_quoted:
  assumes "body = [] \<or> (hd body \<noteq> CHR 0x22 \<and> last body \<noteq> CHR 0x22)"
  shows "Trim (dquote @ body @ dquote) dquote = body"
proof (cases body)
  case Nil
  then show ?thesis by (simp add: Trim_def dquote_def)
next
  case (Cons b bs)
  with assms have b: "b \<noteq> CHR 0x22" and l: "last (b # bs) \<noteq> CHR 0x22" by auto
  have "rev bs @ [b] \<noteq> []" by simp
  have "hd (rev bs @ [b]) = last (b # bs)"
    by (metis hd_rev rev.simps(2) rev_rev_ident list.distinct(1))
  with l have "dropWhile (\<lambda>c. c = CHR 0x22) (rev bs @ [b]) = rev bs @ [b]"
    by (cases "rev bs @ [b]") auto
  with b Cons show ?thesis by (simp add: Trim_def dquote_def)
qed

lemma inspectFunc_True: "fst (inspectFunc n s) = True"
  by (cases n) (simp_all add: inspectFunc_def split: option.splits)

lemma ast_Inspect_inspectFunc:
  "ast_Inspect inspectFunc n s =
     fold (ast_Inspect inspectFunc) (children n) (snd (inspectFunc n s))"
  using inspectFunc_True[of n s] by (cases "inspectFunc n s") (simp add: ast_Inspect.simps)

lemma constSpec_mono: "x |\<in>| s \<Longrightarrow> x |\<in>| constSpec spec s"
  by (cases spec) (auto simp: constSpec_def split: option.splits)

lemma fold_mono:
  assumes "\<And>c s. c \<in> set cs \<Longrightarrow> x |\<in>| s \<Longrightarrow> x |\<in>| f c s"
  shows "x |\<in>| s \<Longrightarrow> x |\<in>| fold f cs s"
  using assms by (induction cs arbitrary: s) auto

lemma fold_constSpec_mono: "x |\<in>| s \<Longrightarrow> x |\<in>| fold constSpec specs s"
  by (rule fold_mono) (auto intro: constSpec_mono)

lemma inspectFunc_mono: "x |\<in>| s \<Longrightarrow> x |\<in>| snd (inspectFunc n s)"
  by (cases n) (auto simp: inspectFunc_def fold_constSpec_mono split: option.splits)

lemma ast_Inspect_mono: "x |\<in>| s \<Longrightarrow> x |\<in>| ast_Inspect inspectFunc n s"
proof (induction inspectFunc n s rule: ast_Inspect.induct)
  case (1 n s)
  have "x |\<in>| fold (ast_Inspect inspectFunc) (children n) (snd (inspectFunc n s))"
  proof (rule fold_mono)
    show "x |\<in>| snd (inspectFunc n s)" using "1.prems" by (rule inspectFunc_mono)
  next
    fix c s' assume "c \<in> set (children n)" "x |\<in>| s'"
    then show "x |\<in>| ast_Inspect inspectFunc c s'"
      using "1.hyps"[of True "snd (inspectFunc n s)" c s'] inspectFunc_True[of n s]
      by (metis prod.collapse)
  qed
  then show ?case by (subst ast_Inspect_inspectFunc)
qed

lemma fold_reaches:
  assumes "c \<in> set cs"
    and "\<And>s. x |\<in>| f c s"
    and "\<And>c s. x |\<in>| s \<Longrightarrow> x |\<in>| f c s"
  shows "x |\<in>| fold f cs s"
  using assms(1)
proof (induction cs arbitrary: s)
  case Nil
  then show ?case by simp
next
  case (Cons a cs)
  show ?case
  proof (cases "a = c")
    case True
    have "x |\<in>| f c s" by (rule assms(2))
    then have "x |\<in>| fold f cs (f c s)" by (rule fold_mono[rotated]) (rule assms(3))
    with True show ?thesis by simp
  next
    case False
    with Cons.prems have "c \<in> set cs" by simp
    then show ?thesis by (simp add: Cons.IH)
  qed
qed

lemma constSpec_first_pair:
  assumes "name \<in> set validConstants"
  shows "Trim v dquote |\<in>| constSpec (ValueSpec (name # names) ty (BasicLit kind v # vals)) s"
  using assms by (simp add: constSpec_def extractForCostants_def)

lemma inspect_const_decl:
  assumes "ValueSpec (name # names) ty (BasicLit kind v # vals) \<in> set specs"
    and "name \<in> set validConstants"
  shows "Trim v dquote |\<in>| ast_Inspect inspectFunc (GenDecl token_CONST specs) s"
proof -
  have "Trim v dquote |\<in>| fold constSpec specs s"
    using assms(1)
    by (rule fold_reaches) (auto intro: constSpec_first_pair[OF assms(2)] constSpec_mono)
  then have "Trim v dquote |\<in>| snd (inspectFunc (GenDecl token_CONST specs) s)"
    by (simp add: inspectFunc_def)
  then have "Trim v dquote |\<in>| fold (ast_Inspect inspectFunc) (children (GenDecl token_CONST specs))
      (snd (inspectFunc (GenDecl token_CONST specs) s))"
    by (rule fold_mono[rotated]) (rule ast_Inspect_mono)
  then show ?thesis by (subst ast_Inspect_inspectFunc)
qed

lemma fold_constSpec_iff:
  "x |\<in>| fold constSpec specs s \<longleftrightarrow>
     x |\<in>| s \<or>
     (\<exists>name names ty kind v vals.
        ValueSpec (name # names) ty (BasicLit kind v # vals) \<in> set specs \<and>
        name \<in> set validConstants \<and> x = Trim v dquote)"
proof (induction specs arbitrary: s)
  case Nil
  then show ?case by simp
next
  case (Cons spec specs)
  have step: "x |\<in>| constSpec spec s \<longleftrightarrow>
     x |\<in>| s \<or>
     (\<exists>name names ty kind v vals.
        spec = ValueSpec (name # names) ty (BasicLit kind v # vals) \<and>
        name \<in> set validConstants \<and> x = Trim v dquote)"
  proof (cases spec)
    case (ValueSpec ns ty vs)
    show ?thesis
    proof (cases ns)
      case Nil
      with ValueSpec show ?thesis by (simp add: constSpec_def)
    next
      case (Cons n ns')
      note ns = Cons
      show ?thesis
      proof (cases vs)
        case Nil
        with ValueSpec ns show ?thesis by (simp add: constSpec_def)
      next
        case (Cons a vs')
        with ValueSpec ns show ?thesis
          by (cases a) (auto simp: constSpec_def extractForCostants_def)
      qed
    qed
  qed (simp_all add: constSpec_def)
  show ?case by (simp add: Cons.IH step) blast
qed

subsection \<open>The example run\<close>

lemma example_scan: "ast_Inspect inspectFunc example_file {||} = example_discovered"
  by (simp add: example_file_def example_discovered_def ast_Inspect.simps inspectFunc_def
      callExprId_def extractByFuncName_def constSpec_def extractForCostants_def validConstants_def
      Trim_def dquote_def)

lemma example_extractStrings:
  "extractStrings example_env example_world ''../enterprise'' ''src'' = Some example_discovered"
  by (simp add: extractStrings_def walkFunc_def extractFromPath_def example_env_def
      example_world_def example_Join_def HasPrefix_def HasSuffix_def example_scan)

lemma example_getCurrentTranslations:
  "getCurrentTranslations example_env example_world ''src'' = Inr example_catalog"
  by (simp add: getCurrentTranslations_def example_env_def example_world_def example_Join_def)

lemma example_extractCmdF:
  "extractCmdF example_env example_flags example_world =
     (Returned None, example_world\<lparr>files := (files example_world)(''src/i18n/en.json'' := Inr ''new catalog'')\<rparr>)"
proof -
  have "extractCmdF example_env example_flags example_world =
     (Returned None, example_world\<lparr>files := (files example_world)
        (Join example_env [''src'', ''i18n'', ''en.json''] := Inr ''new catalog'')\<rparr>)"
  proof (rule extractCmdF_run)
    show "enterprise_dir example_flags = Inr ''../enterprise''" "xenia_dir example_flags = Inr ''src''"
      by (simp_all add: example_flags_def)
    show "extractStrings example_env example_world ''../enterprise'' ''src'' = Some example_discovered"
      by (rule example_extractStrings)
    show "getCurrentTranslations example_env example_world ''src'' = Inr example_catalog"
      by (rule example_getCurrentTranslations)
    show "Create example_env (Join example_env [''src'', ''i18n'', ''en.json'']) = None"
      by (simp add: example_env_def)
    show "Marshal example_env (reconcile (addDynamicallyGeneratedStrings example_discovered) example_catalog)
        = Inr ''new catalog''"
      by (simp add: example_env_def example_result_def)
  qed
  then show ?thesis by (simp add: example_env_def example_Join_def)
qed

section \<open>The claims\<close>

text \<open>
  Claim C1. Every run of \<^verbatim>\<open>extractCmdF\<close> that returns nil has written, at the catalog
  path, the encoding of a slice whose identifiers are exactly the discovered identifiers
  together with the injected ones, each once, in ascending order.
\<close>

theorem extract_catalog_exact_cover_sorted:
  assumes "extractCmdF e fl w = (Returned None, w')"
  shows "\<exists>enterpriseDir xeniaDir discovered translations result b.
           enterprise_dir fl = Inr enterpriseDir \<and> xenia_dir fl = Inr xeniaDir \<and>
           extractStrings e w enterpriseDir xeniaDir = Some discovered \<and>
           getCurrentTranslations e w xeniaDir = Inr translations \<and>
           result = reconcile (addDynamicallyGeneratedStrings discovered) translations \<and>
           Marshal e result = Inr b \<and>
           files w' (Join e [xeniaDir, ''i18n'', ''en.json'']) = Inr b \<and>
           Id' ` set result = fset discovered \<union> set dynamicallyGeneratedStrings \<and>
           distinct (map Id' result) \<and>
           sorted (map Id' result)"
proof -
  from extractCmdF_success[OF assms]
  obtain enterpriseDir xeniaDir discovered ts b where
    run: "enterprise_dir fl = Inr enterpriseDir" "xenia_dir fl = Inr xeniaDir"
      "extractStrings e w enterpriseDir xeniaDir = Some discovered"
      "getCurrentTranslations e w xeniaDir = Inr ts"
      "Marshal e (reconcile (addDynamicallyGeneratedStrings discovered) ts) = Inr b"
      "w' = w\<lparr>files := (files w)(Join e [xeniaDir, ''i18n'', ''en.json''] := Inr b)\<rparr>"
    by blast
  define result where "result = reconcile (addDynamicallyGeneratedStrings discovered) ts"
  have "Id' ` set result = fset discovered \<union> set dynamicallyGeneratedStrings"
    by (simp add: result_def reconcile_set_Id fset_addDynamicallyGeneratedStrings)
  moreover have "distinct (map Id' result)" "sorted (map Id' result)"
    by (simp_all add: result_def reconcile_distinct_Id reconcile_sorted_Id)
  moreover have "files w' (Join e [xeniaDir, ''i18n'', ''en.json'']) = Inr b"
    by (simp add: run(6))
  ultimately show ?thesis using run(1-5) result_def by blast
qed

theorem extract_catalog_exact_cover_sorted_witness:
  "extractCmdF example_env example_flags example_world =
     (Returned None,
      example_world\<lparr>files := (files example_world)(''src/i18n/en.json'' := Inr ''new catalog'')\<rparr>) \<and>
   (\<exists>enterpriseDir xeniaDir discovered translations result b.
      enterprise_dir example_flags = Inr enterpriseDir \<and> xenia_dir example_flags = Inr xeniaDir \<and>
      extractStrings example_env example_world enterpriseDir xeniaDir = Some discovered \<and>
      getCurrentTranslations example_env example_world xeniaDir = Inr translations \<and>
      result = reconcile (addDynamicallyGeneratedStrings discovered) translations \<and>
      Marshal example_env result = Inr b \<and>
      files (example_world\<lparr>files := (files example_world)(''src/i18n/en.json'' := Inr ''new catalog'')\<rparr>)
        (Join example_env [xeniaDir, ''i18n'', ''en.json'']) = Inr b \<and>
      Id' ` set result = fset discovered \<union> set dynamicallyGeneratedStrings \<and>
      distinct (map Id' result) \<and>
      sorted (map Id' result))"
  using example_extractCmdF extract_catalog_exact_cover_sorted[OF example_extractCmdF]
  by (rule conjI)

text \<open>
  Claim C2. An identifier that is in the set given to the reconciliation (the discovered
  identifiers with the injected ones) and that the catalog maps to the value \<open>v\<close> (every
  catalog entry with this identifier carries \<open>v\<close>) has exactly one entry in the slice
  that \<^verbatim>\<open>extractCmdF\<close> encodes, with the same value \<open>v\<close>, whatever \<open>v\<close> is.
\<close>

theorem translation_preserved:
  assumes "k |\<in>| addDynamicallyGeneratedStrings discovered"
    and "\<lparr>Id' = k, Translation' = v\<rparr> \<in> set translations"
    and "\<forall>t\<in>set translations. Id' t = k \<longrightarrow> Translation' t = v"
  shows "filter (\<lambda>t. Id' t = k) (reconcile (addDynamicallyGeneratedStrings discovered) translations)
           = [\<lparr>Id' = k, Translation' = v\<rparr>]"
proof -
  let ?same = "filter (\<lambda>t. Id' t = k) translations"
  have "Id' \<lparr>Id' = k, Translation' = v\<rparr> = k" by simp
  with assms(2) have ne: "?same \<noteq> []"
    unfolding filter_empty_conv by blast
  then have "last ?same \<in> set ?same" by (rule last_in_set)
  then have "Id' (last ?same) = k" "Translation' (last ?same) = v"
    using assms(3) by auto
  then have "last ?same = \<lparr>Id' = k, Translation' = v\<rparr>" by simp
  with ne assms(1) show ?thesis by (simp add: reconcile_filter_Id)
qed

theorem translation_preserved_witness:
  "''May'' |\<in>| addDynamicallyGeneratedStrings {||} \<and>
   \<lparr>Id' = ''May'', Translation' = GMap [(''one'', GString ''<b>May</b>''), (''other'', GString '''')]\<rparr>
     \<in> set [\<lparr>Id' = ''gone'', Translation' = GString ''x''\<rparr>,
            \<lparr>Id' = ''May'', Translation' = GMap [(''one'', GString ''<b>May</b>''), (''other'', GString '''')]\<rparr>] \<and>
   filter (\<lambda>t. Id' t = ''May'')
     (reconcile (addDynamicallyGeneratedStrings {||})
        [\<lparr>Id' = ''gone'', Translation' = GString ''x''\<rparr>,
         \<lparr>Id' = ''May'', Translation' = GMap [(''one'', GString ''<b>May</b>''), (''other'', GString '''')]\<rparr>])
     = [\<lparr>Id' = ''May'', Translation' = GMap [(''one'', GString ''<b>May</b>''), (''other'', GString '''')]\<rparr>]"
proof -
  have 1: "''May'' |\<in>| addDynamicallyGeneratedStrings {||}"
    by (simp add: fset_addDynamicallyGeneratedStrings dynamicallyGeneratedStrings_def)
  show ?thesis
    using 1 translation_preserved[OF 1, of "GMap [(''one'', GString ''<b>May</b>''), (''other'', GString '''')]"
      "[\<lparr>Id' = ''gone'', Translation' = GString ''x''\<rparr>,
        \<lparr>Id' = ''May'', Translation' = GMap [(''one'', GString ''<b>May</b>''), (''other'', GString '''')]\<rparr>]"]
    by simp
qed

text \<open>
  Claim C10. When the catalog has two or more entries with an identifier that is in the set
  given to the reconciliation, the slice that \<^verbatim>\<open>extractCmdF\<close> encodes has exactly one
  entry with this identifier, and it is the last of these catalog entries; no two entries
  of the slice share an identifier.
\<close>

theorem duplicate_ids_last_wins:
  assumes "k |\<in>| addDynamicallyGeneratedStrings discovered"
    and "2 \<le> length (filter (\<lambda>t. Id' t = k) translations)"
  shows "filter (\<lambda>t. Id' t = k) (reconcile (addDynamicallyGeneratedStrings discovered) translations)
           = [last (filter (\<lambda>t. Id' t = k) translations)] \<and>
         distinct (map Id' (reconcile (addDynamicallyGeneratedStrings discovered) translations))"
proof -
  from assms(2) have "filter (\<lambda>t. Id' t = k) translations \<noteq> []" by auto
  with assms(1) show ?thesis by (simp add: reconcile_filter_Id reconcile_distinct_Id)
qed

theorem duplicate_ids_last_wins_witness:
  "''foo.bar'' |\<in>| addDynamicallyGeneratedStrings example_discovered \<and>
   2 \<le> length (filter (\<lambda>t. Id' t = ''foo.bar'') example_catalog) \<and>
   filter (\<lambda>t. Id' t = ''foo.bar'')
     (reconcile (addDynamicallyGeneratedStrings example_discovered) example_catalog)
     = [\<lparr>Id' = ''foo.bar'', Translation' = GString ''second''\<rparr>] \<and>
   distinct (map Id' (reconcile (addDynamicallyGeneratedStrings example_discovered) example_catalog))"
proof -
  have 1: "''foo.bar'' |\<in>| addDynamicallyGeneratedStrings example_discovered"
    by (simp add: fset_addDynamicallyGeneratedStrings example_discovered_def)
  have 2: "2 \<le> length (filter (\<lambda>t. Id' t = ''foo.bar'') example_catalog)"
    by (simp add: example_catalog_def)
  have 3: "last (filter (\<lambda>t. Id' t = ''foo.bar'') example_catalog)
      = \<lparr>Id' = ''foo.bar'', Translation' = GString ''second''\<rparr>"
    by (simp add: example_catalog_def)
  show ?thesis
    using 1 2 duplicate_ids_last_wins[OF 1 2] unfolding 3 by simp
qed

text \<open>
  Claim C3. Take a state in which the flags are read, the scan of the two roots finds the
  set \<open>discovered\<close> and the catalog loads as \<open>translations\<close>, and let \<open>result\<close> be the slice
  that \<^verbatim>\<open>extractCmdF\<close> encodes in this state (it is what a run of \<^verbatim>\<open>extractCmdF\<close> that
  returns nil writes). Then \<^verbatim>\<open>checkCmdF\<close> appends to the standard output, in this order,
  one line "Added: k" for each identifier \<open>k\<close> of \<open>result\<close> that is no identifier of the
  catalog (the entries that the extraction would insert), in ascending order, and one
  line "Removed: k" for each identifier \<open>k\<close> of a catalog entry that is no identifier of
  \<open>result\<close> (the entries that the extraction would delete), in ascending order; and it
  returns nil exactly when both lists are empty, and the error of an outdated catalog
  otherwise.
\<close>

theorem check_agrees_with_extract:
  assumes flags: "enterprise_dir fl = Inr enterpriseDir" "xenia_dir fl = Inr xeniaDir"
    and scan: "extractStrings e w enterpriseDir xeniaDir = Some discovered"
    and load: "getCurrentTranslations e w xeniaDir = Inr translations"
    and result: "result = reconcile (addDynamicallyGeneratedStrings discovered) translations"
    and added: "added = filter (\<lambda>k. k \<notin> Id' ` set translations) (map Id' result)"
    and removed: "removed = filter (\<lambda>k. k \<notin> Id' ` set result) (sort (map Id' translations))"
  shows "stdout (snd (checkCmdF e fl w)) =
           stdout w @ map (\<lambda>k. Println [''Added:'', k]) added @
                      map (\<lambda>k. Println [''Removed:'', k]) removed \<and>
         fst (checkCmdF e fl w) =
           Returned (if added = [] \<and> removed = [] then None
                     else Some (ErrorsNew ''Translations file out of date.'')) \<and>
         (\<forall>w'. extractCmdF e fl w = (Returned None, w') \<longrightarrow>
            (\<exists>b. Marshal e result = Inr b \<and>
                 files w' (Join e [xeniaDir, ''i18n'', ''en.json'']) = Inr b))"
proof (intro conjI allI impI)
  have report: "checkTranslations (addDynamicallyGeneratedStrings discovered) translations =
      (map (\<lambda>k. Println [''Added:'', k]) added @ map (\<lambda>k. Println [''Removed:'', k]) removed,
       if added = [] \<and> removed = [] then None
       else Some (ErrorsNew ''Translations file out of date.''))"
    unfolding added removed result by (rule checkTranslations_reconcile)
  from checkCmdF_run(2)[OF flags scan load report]
  show "stdout (snd (checkCmdF e fl w)) =
      stdout w @ map (\<lambda>k. Println [''Added:'', k]) added @
                 map (\<lambda>k. Println [''Removed:'', k]) removed" .
  from checkCmdF_run(1)[OF flags scan load report]
  show "fst (checkCmdF e fl w) =
      Returned (if added = [] \<and> removed = [] then None
                else Some (ErrorsNew ''Translations file out of date.''))" .
next
  fix w'
  assume "extractCmdF e fl w = (Returned None, w')"
  from extractCmdF_success[OF this] flags scan load
  show "\<exists>b. Marshal e result = Inr b \<and>
      files w' (Join e [xeniaDir, ''i18n'', ''en.json'']) = Inr b"
    by (auto simp: result)
qed

theorem check_agrees_with_extract_witness:
  "enterprise_dir example_flags = Inr ''../enterprise'' \<and>
   xenia_dir example_flags = Inr ''src'' \<and>
   extractStrings example_env example_world ''../enterprise'' ''src'' = Some example_discovered \<and>
   getCurrentTranslations example_env example_world ''src'' = Inr example_catalog \<and>
   stdout (snd (checkCmdF example_env example_flags example_world)) =
     stdout example_world @
     map (\<lambda>k. Println [''Added:'', k])
       (filter (\<lambda>k. k \<notin> Id' ` set example_catalog) (map Id' example_result)) @
     map (\<lambda>k. Println [''Removed:'', k])
       (filter (\<lambda>k. k \<notin> Id' ` set example_result) (sort (map Id' example_catalog))) \<and>
   ''removed.from.code'' \<in>
     set (filter (\<lambda>k. k \<notin> Id' ` set example_result) (sort (map Id' example_catalog))) \<and>
   fst (checkCmdF example_env example_flags example_world) =
     Returned (Some (ErrorsNew ''Translations file out of date.'')) \<and>
   files (example_world\<lparr>files := (files example_world)(''src/i18n/en.json'' := Inr ''new catalog'')\<rparr>)
     (Join example_env [''src'', ''i18n'', ''en.json'']) = Marshal example_env example_result"
proof -
  have flags: "enterprise_dir example_flags = Inr ''../enterprise''" "xenia_dir example_flags = Inr ''src''"
    by (simp_all add: example_flags_def)
  have gone: "''removed.from.code'' \<in>
     set (filter (\<lambda>k. k \<notin> Id' ` set example_result) (sort (map Id' example_catalog)))"
    by (simp add: example_result_def reconcile_set_Id fset_addDynamicallyGeneratedStrings
        example_discovered_def dynamicallyGeneratedStrings_def example_catalog_def)
  then have ne: "filter (\<lambda>k. k \<notin> Id' ` set example_result) (sort (map Id' example_catalog)) \<noteq> []"
    by (metis empty_iff list.set(1))
  note inst = check_agrees_with_extract[OF flags example_extractStrings example_getCurrentTranslations
      example_result_def refl refl]
  have written: "files (example_world\<lparr>files := (files example_world)(''src/i18n/en.json'' := Inr ''new catalog'')\<rparr>)
     (Join example_env [''src'', ''i18n'', ''en.json'']) = Marshal example_env example_result"
    using inst example_extractCmdF by auto
  show ?thesis
    using flags example_extractStrings example_getCurrentTranslations gone written inst ne
    by simp
qed

text \<open>
  Claim C4. When a run of \<^verbatim>\<open>extractCmdF\<close> has returned nil, the decoder gives back, for the
  bytes that the run wrote, the slice that the run encoded, and the catalog path is not the
  path of a scanned source file, then a second run on the files that the first run left
  returns nil and leaves every file as it was: it writes the same bytes.
\<close>

theorem extract_twice_same_bytes:
  assumes run1: "extractCmdF e fl w = (Returned None, w1)"
    and flags: "enterprise_dir fl = Inr enterpriseDir" "xenia_dir fl = Inr xeniaDir"
    and scan: "extractStrings e w enterpriseDir xeniaDir = Some discovered"
    and load: "getCurrentTranslations e w xeniaDir = Inr translations"
    and roundtrip:
      "\<forall>b. Marshal e (reconcile (addDynamicallyGeneratedStrings discovered) translations) = Inr b \<longrightarrow>
           fst (Unmarshal e b) = reconcile (addDynamicallyGeneratedStrings discovered) translations"
    and catalog_path: "\<not> HasSuffix (Join e [xeniaDir, ''i18n'', ''en.json'']) ''.go''"
  shows "extractCmdF e fl w1 = (Returned None, w1)"
proof -
  define p where "p = Join e [xeniaDir, ''i18n'', ''en.json'']"
  define r where "r = reconcile (addDynamicallyGeneratedStrings discovered) translations"
  from extractCmdF_success[OF run1] flags scan load
  obtain b where create: "Create e p = None" and marshal: "Marshal e r = Inr b"
    and w1: "w1 = w\<lparr>files := (files w)(p := Inr b)\<rparr>"
    by (auto simp: p_def r_def)
  from roundtrip marshal have decode: "fst (Unmarshal e b) = r" by (simp add: r_def)
  have "\<forall>q. HasSuffix q ''.go'' \<longrightarrow> files w1 q = files w q"
    using catalog_path by (auto simp: w1 p_def)
  then have "extractStrings e w1 enterpriseDir xeniaDir = extractStrings e w enterpriseDir xeniaDir"
    by (rule extractStrings_files_cong)
  with scan have scan1: "extractStrings e w1 enterpriseDir xeniaDir = Some discovered"
    by simp
  have load1: "getCurrentTranslations e w1 xeniaDir = Inr r"
    by (simp add: getCurrentTranslations_def w1 p_def[symmetric] decode)
  have fixpoint: "reconcile (addDynamicallyGeneratedStrings discovered) r = r"
    unfolding r_def by (rule reconcile_idem)
  have "extractCmdF e fl w1 = (Returned None, w1\<lparr>files := (files w1)(p := Inr b)\<rparr>)"
    unfolding p_def
    by (rule extractCmdF_run[OF flags scan1 load1]) (simp_all add: fixpoint create[unfolded p_def] marshal)
  also have "w1\<lparr>files := (files w1)(p := Inr b)\<rparr> = w1"
    by (simp add: w1)
  finally show ?thesis .
qed

theorem extract_twice_same_bytes_witness:
  "extractCmdF example_env example_flags example_world =
     (Returned None,
      example_world\<lparr>files := (files example_world)(''src/i18n/en.json'' := Inr ''new catalog'')\<rparr>) \<and>
   \<not> HasSuffix (Join example_env [''src'', ''i18n'', ''en.json'']) ''.go'' \<and>
   extractCmdF example_env example_flags
     (example_world\<lparr>files := (files example_world)(''src/i18n/en.json'' := Inr ''new catalog'')\<rparr>) =
     (Returned None,
      example_world\<lparr>files := (files example_world)(''src/i18n/en.json'' := Inr ''new catalog'')\<rparr>)"
proof -
  have flags: "enterprise_dir example_flags = Inr ''../enterprise''" "xenia_dir example_flags = Inr ''src''"
    by (simp_all add: example_flags_def)
  have roundtrip:
    "\<forall>b. Marshal example_env (reconcile (addDynamicallyGeneratedStrings example_discovered) example_catalog)
            = Inr b \<longrightarrow>
         fst (Unmarshal example_env b)
            = reconcile (addDynamicallyGeneratedStrings example_discovered) example_catalog"
    by (simp add: example_env_def example_result_def)
  have path: "\<not> HasSuffix (Join example_env [''src'', ''i18n'', ''en.json'']) ''.go''"
    by (simp add: example_env_def example_Join_def HasSuffix_def)
  show ?thesis
    using example_extractCmdF path
      extract_twice_same_bytes[OF example_extractCmdF flags example_extractStrings
        example_getCurrentTranslations roundtrip path]
    by simp
qed

text \<open>
  Claim C5, as stated, fails: a call of a function named \<^verbatim>\<open>newAppError\<close>, a name in neither
  of the two sets, is matched, with its first argument.
\<close>

theorem newAppError_matched_counterexample:
  "callExprId (Ident ''newAppError'') [BasicLit token_STRING (dquote @ ''api.context.error'' @ dquote)]
     = Some (dquote @ ''api.context.error'' @ dquote) \<and>
   ''newAppError'' \<notin> {''T'', ''translateFunc'', ''userLocale'', ''localT''} \<and>
   ''newAppError'' \<notin> {''NewAppError'', ''TranslateAsHtml''}"
  by (simp add: callExprId_def extractByFuncName_def)

text \<open>
  Claim C5, amended. A call expression is matched, with the literal \<open>v\<close>, exactly when its
  callee is an identifier or a selector expression whose (terminal) name is one of
  \<^verbatim>\<open>T\<close>, \<^verbatim>\<open>newAppError\<close>, \<^verbatim>\<open>translateFunc\<close>, \<^verbatim>\<open>userLocale\<close>, \<^verbatim>\<open>localT\<close> and the first argument
  is the basic literal \<open>v\<close>, or one of \<^verbatim>\<open>NewAppError\<close>, \<^verbatim>\<open>TranslateAsHtml\<close> and the second
  argument is the basic literal \<open>v\<close>. Any other name, and any other form of callee, gives
  no match.
\<close>

theorem call_matched_exactly:
  "callExprId fn args = Some v \<longleftrightarrow>
     (\<exists>name. (fn = Ident name \<or> (\<exists>x. fn = SelectorExpr x name)) \<and>
        (name \<in> {''T'', ''newAppError'', ''translateFunc'', ''userLocale'', ''localT''} \<and>
           (\<exists>kind rest. args = BasicLit kind v # rest) \<or>
         name \<in> {''NewAppError'', ''TranslateAsHtml''} \<and>
           (\<exists>a kind rest. args = a # BasicLit kind v # rest)))"
  by (cases fn) (simp_all add: callExprId_def extractByFuncName_Some)

theorem call_matched_exactly_witness:
  "callExprId (SelectorExpr (Ident ''utils'') ''T'') [BasicLit token_STRING (dquote @ ''foo.bar'' @ dquote)]
      = Some (dquote @ ''foo.bar'' @ dquote) \<and>
   callExprId (Ident ''Sprintf'') [BasicLit token_STRING (dquote @ ''foo.bar'' @ dquote)] \<noteq>
      Some (dquote @ ''foo.bar'' @ dquote)"
  using call_matched_exactly[of "SelectorExpr (Ident ''utils'') ''T''"
      "[BasicLit token_STRING (dquote @ ''foo.bar'' @ dquote)]" "dquote @ ''foo.bar'' @ dquote"]
    call_matched_exactly[of "Ident ''Sprintf''"
      "[BasicLit token_STRING (dquote @ ''foo.bar'' @ dquote)]" "dquote @ ''foo.bar'' @ dquote"]
  by simp

text \<open>
  Claim C6, as stated, fails: the call \<^verbatim>\<open>T(42)\<close>, whose argument is an integer literal and
  no literal string, yields the identifier \<^verbatim>\<open>42\<close>.
\<close>

theorem integer_literal_matched_counterexample:
  "inspectFunc (CallExpr (Ident ''T'') [BasicLit token_INT ''42'']) {||} = (True, {|''42''|}) \<and>
   token_INT \<noteq> token_STRING"
  by (simp add: inspectFunc_def callExprId_def extractByFuncName_def Trim_def dquote_def)

text \<open>
  Claim C6, amended. For a call whose callee has one of the recognized names, the closure
  looks at the argument at the position of the name only, and only whether it is a basic
  literal (of any kind: string, character, integer, floating-point or imaginary): when it
  is none, the set stays as it is; when it is the basic literal \<open>v\<close>, the identifier
  inserted is \<open>v\<close> without its leading and trailing double quotes. That identifier neither
  starts nor ends with a double quote, and for a literal that is a body between two double
  quotes, where the body neither starts nor ends with a double quote, it is the body.
\<close>

theorem literal_argument_trimmed:
  assumes "fn = Ident name \<or> fn = SelectorExpr x name"
  shows "(name \<in> {''T'', ''newAppError'', ''translateFunc'', ''userLocale'', ''localT''} \<longrightarrow>
            inspectFunc (CallExpr fn (a # rest)) s =
              (True, case a of BasicLit kind lit \<Rightarrow> finsert (Trim lit dquote) s | _ \<Rightarrow> s)) \<and>
         (name \<in> {''NewAppError'', ''TranslateAsHtml''} \<longrightarrow>
            inspectFunc (CallExpr fn (a # b # rest)) s =
              (True, case b of BasicLit kind lit \<Rightarrow> finsert (Trim lit dquote) s | _ \<Rightarrow> s)) \<and>
         (Trim v dquote \<noteq> [] \<longrightarrow>
            hd (Trim v dquote) \<noteq> CHR 0x22 \<and> last (Trim v dquote) \<noteq> CHR 0x22) \<and>
         (body = [] \<or> hd body \<noteq> CHR 0x22 \<and> last body \<noteq> CHR 0x22 \<longrightarrow>
            Trim (dquote @ body @ dquote) dquote = body)"
proof (intro conjI impI)
  assume "name \<in> {''T'', ''newAppError'', ''translateFunc'', ''userLocale'', ''localT''}"
  with assms show "inspectFunc (CallExpr fn (a # rest)) s =
      (True, case a of BasicLit kind lit \<Rightarrow> finsert (Trim lit dquote) s | _ \<Rightarrow> s)"
    by (cases a) (auto simp: inspectFunc_def callExprId_def extractByFuncName_def)
next
  assume "name \<in> {''NewAppError'', ''TranslateAsHtml''}"
  with assms show "inspectFunc (CallExpr fn (a # b # rest)) s =
      (True, case b of BasicLit kind lit \<Rightarrow> finsert (Trim lit dquote) s | _ \<Rightarrow> s)"
    by (cases b) (auto simp: inspectFunc_def callExprId_def extractByFuncName_def)
next
  assume "Trim v dquote \<noteq> []"
  from Trim_ends[OF this] show "hd (Trim v dquote) \<noteq> CHR 0x22" "last (Trim v dquote) \<noteq> CHR 0x22"
    by (simp_all add: dquote_def)
next
  assume "body = [] \<or> hd body \<noteq> CHR 0x22 \<and> last body \<noteq> CHR 0x22"
  then show "Trim (dquote @ body @ dquote) dquote = body" by (rule Trim_quoted)
qed

theorem literal_argument_trimmed_witness:
  "inspectFunc (CallExpr (Ident ''T'') [BasicLit token_STRING (dquote @ ''foo.bar'' @ dquote)]) {||}
     = (True, {|''foo.bar''|}) \<and>
   inspectFunc (CallExpr (Ident ''T'') [Ident ''someVar'']) {||} = (True, {||}) \<and>
   inspectFunc (CallExpr (SelectorExpr (Ident ''model'') ''NewAppError'')
       [BasicLit token_STRING (dquote @ ''ctx'' @ dquote),
        BasicLit token_STRING (dquote @ ''model.user.is_valid.id.app_error'' @ dquote),
        Ident ''nil'']) {||}
     = (True, {|''model.user.is_valid.id.app_error''|})"
proof -
  note first = literal_argument_trimmed[OF disjI1[OF refl], where name = "''T''"]
  note second = literal_argument_trimmed[OF disjI2[OF refl],
      where name = "''NewAppError''" and x = "Ident ''model''"]
  have 1: "inspectFunc (CallExpr (Ident ''T'') [BasicLit token_STRING (dquote @ ''foo.bar'' @ dquote)]) {||}
     = (True, {|''foo.bar''|})"
    using first[where a = "BasicLit token_STRING (dquote @ ''foo.bar'' @ dquote)" and rest = "[]"
        and s = "{||}" and body = "''foo.bar''"]
    by (simp add: Trim_def dquote_def)
  have 2: "inspectFunc (CallExpr (Ident ''T'') [Ident ''someVar'']) {||} = (True, {||})"
    using first[where a = "Ident ''someVar''" and rest = "[]" and s = "{||}"] by simp
  have 3: "inspectFunc (CallExpr (SelectorExpr (Ident ''model'') ''NewAppError'')
       [BasicLit token_STRING (dquote @ ''ctx'' @ dquote),
        BasicLit token_STRING (dquote @ ''model.user.is_valid.id.app_error'' @ dquote),
        Ident ''nil'']) {||}
     = (True, {|''model.user.is_valid.id.app_error''|})"
    using second[where a = "BasicLit token_STRING (dquote @ ''ctx'' @ dquote)"
        and b = "BasicLit token_STRING (dquote @ ''model.user.is_valid.id.app_error'' @ dquote)"
        and rest = "[Ident ''nil'']" and s = "{||}"]
    by (simp add: Trim_def dquote_def)
  from 1 2 3 show ?thesis by simp
qed

text \<open>
  Claim C7, as stated, fails: in the declaration
  \<^verbatim>\<open>const A, MISSING_CHANNEL_ERROR = "a", "store.sql_channel.missing.app_error"\<close>
  the second name is in the allow-list and its initializer is a literal, and the scan of
  the file does not discover the initializer.
\<close>

theorem second_pair_ignored_counterexample:
  "''MISSING_CHANNEL_ERROR'' \<in> set validConstants \<and>
   Trim (dquote @ ''store.sql_channel.missing.app_error'' @ dquote) dquote
     = ''store.sql_channel.missing.app_error'' \<and>
   ''store.sql_channel.missing.app_error'' |\<notin>|
     ast_Inspect inspectFunc
       (OtherNode
          [Ident ''store'',
           GenDecl token_CONST
             [ValueSpec [''A'', ''MISSING_CHANNEL_ERROR''] None
                [BasicLit token_STRING (dquote @ ''a'' @ dquote),
                 BasicLit token_STRING (dquote @ ''store.sql_channel.missing.app_error'' @ dquote)]]])
       {||}"
  by (simp add: ast_Inspect.simps inspectFunc_def constSpec_def extractForCostants_def
      validConstants_def Trim_def dquote_def)

text \<open>
  Claim C7, amended. For every constant declaration at the top level of a file, the scanner
  goes through the value specifications of the group and looks, in each, at the first name
  and the first initializer only: when that name is in the allow-list and that initializer
  is a basic literal, the literal without its leading and trailing double quotes is in the
  set after the scan of the file. The closure, called on a constant declaration, adds these
  identifiers and no other.
\<close>

theorem const_first_pair_discovered:
  "(GenDecl token_CONST specs \<in> set (children root) \<and>
    ValueSpec (name # names) ty (BasicLit kind v # vals) \<in> set specs \<and>
    name \<in> set validConstants \<longrightarrow>
      Trim v dquote |\<in>| ast_Inspect inspectFunc root s) \<and>
   (x |\<in>| snd (inspectFunc (GenDecl token_CONST specs') s') \<longleftrightarrow>
      x |\<in>| s' \<or>
      (\<exists>name names ty kind v vals.
         ValueSpec (name # names) ty (BasicLit kind v # vals) \<in> set specs' \<and>
         name \<in> set validConstants \<and> x = Trim v dquote))"
proof (intro conjI impI)
  assume a: "GenDecl token_CONST specs \<in> set (children root) \<and>
    ValueSpec (name # names) ty (BasicLit kind v # vals) \<in> set specs \<and>
    name \<in> set validConstants"
  then have decl: "GenDecl token_CONST specs \<in> set (children root)"
    and spec: "ValueSpec (name # names) ty (BasicLit kind v # vals) \<in> set specs"
    and allowed: "name \<in> set validConstants"
    by simp_all
  have "Trim v dquote |\<in>| fold (ast_Inspect inspectFunc) (children root) (snd (inspectFunc root s))"
    using decl
  proof (rule fold_reaches)
    show "Trim v dquote |\<in>| ast_Inspect inspectFunc (GenDecl token_CONST specs) s''" for s''
      using spec allowed by (rule inspect_const_decl)
    show "Trim v dquote |\<in>| s'' \<Longrightarrow> Trim v dquote |\<in>| ast_Inspect inspectFunc c s''" for c s''
      by (rule ast_Inspect_mono)
  qed
  then show "Trim v dquote |\<in>| ast_Inspect inspectFunc root s"
    by (subst ast_Inspect_inspectFunc)
next
  show "x |\<in>| snd (inspectFunc (GenDecl token_CONST specs') s') \<longleftrightarrow>
      x |\<in>| s' \<or>
      (\<exists>name names ty kind v vals.
         ValueSpec (name # names) ty (BasicLit kind v # vals) \<in> set specs' \<and>
         name \<in> set validConstants \<and> x = Trim v dquote)"
    by (simp add: inspectFunc_def fold_constSpec_iff)
qed

theorem const_first_pair_discovered_witness:
  "GenDecl token_CONST
     [ValueSpec [''MISSING_CHANNEL_ERROR''] None
        [BasicLit token_STRING (dquote @ ''store.sql_channel.missing.app_error'' @ dquote)]]
     \<in> set (children example_file) \<and>
   ''MISSING_CHANNEL_ERROR'' \<in> set validConstants \<and>
   ''store.sql_channel.missing.app_error'' |\<in>| ast_Inspect inspectFunc example_file {||}"
proof -
  have 1: "GenDecl token_CONST
     [ValueSpec [''MISSING_CHANNEL_ERROR''] None
        [BasicLit token_STRING (dquote @ ''store.sql_channel.missing.app_error'' @ dquote)]]
     \<in> set (children example_file)"
    by (simp add: example_file_def)
  have 2: "''MISSING_CHANNEL_ERROR'' \<in> set validConstants"
    by (simp add: validConstants_def)
  have 3: "Trim (dquote @ ''store.sql_channel.missing.app_error'' @ dquote) dquote
      = ''store.sql_channel.missing.app_error''"
    by (simp add: Trim_def dquote_def)
  show ?thesis
    using 1 2 const_first_pair_discovered[where root = "example_file" and s = "{||}"
        and name = "''MISSING_CHANNEL_ERROR''" and names = "[]" and ty = "None"
        and kind = "token_STRING" and vals = "[]"
        and v = "dquote @ ''store.sql_channel.missing.app_error'' @ dquote"
        and specs = "[ValueSpec [''MISSING_CHANNEL_ERROR''] None
          [BasicLit token_STRING (dquote @ ''store.sql_channel.missing.app_error'' @ dquote)]]"]
    unfolding 3 by simp
qed

text \<open>
  Claim C8. \<^verbatim>\<open>getCurrentTranslations\<close> returns an error exactly when reading the catalog
  file fails, and the error is that of the read. When the file is read, it returns no error
  and the slice that the decoder left, whether or not the decoder reported an error.
\<close>

theorem catalog_load_error_only_on_read:
  "(getCurrentTranslations e w xeniaDir = Inl err \<longleftrightarrow>
      files w (Join e [xeniaDir, ''i18n'', ''en.json'']) = Inl err) \<and>
   (files w (Join e [xeniaDir, ''i18n'', ''en.json'']) = Inr jsonFile \<and>
    Unmarshal e jsonFile = (partial, decodeErr) \<longrightarrow>
      getCurrentTranslations e w xeniaDir = Inr partial)"
  by (auto simp: getCurrentTranslations_def split: sum.splits)

theorem catalog_load_error_only_on_read_witness:
  "files (example_world\<lparr>files := (files example_world)(''src/i18n/en.json'' := Inr ''[{'')\<rparr>)
     (Join example_env [''src'', ''i18n'', ''en.json'']) = Inr ''[{'' \<and>
   Unmarshal example_env ''[{'' = ([], Some (JSONError ''unexpected end of JSON input'')) \<and>
   getCurrentTranslations example_env
     (example_world\<lparr>files := (files example_world)(''src/i18n/en.json'' := Inr ''[{'')\<rparr>) ''src''
     = Inr [] \<and>
   getCurrentTranslations example_env example_world ''elsewhere''
     = Inl (OSError ''no such file or directory'')"
proof -
  let ?w = "example_world\<lparr>files := (files example_world)(''src/i18n/en.json'' := Inr ''[{'')\<rparr>"
  have 1: "files ?w (Join example_env [''src'', ''i18n'', ''en.json'']) = Inr ''[{''"
    by (simp add: example_env_def example_Join_def)
  have 2: "Unmarshal example_env ''[{'' = ([], Some (JSONError ''unexpected end of JSON input''))"
    by (simp add: example_env_def)
  have 3: "files example_world (Join example_env [''elsewhere'', ''i18n'', ''en.json''])
      = Inl (OSError ''no such file or directory'')"
    by (simp add: example_env_def example_Join_def example_world_def)
  show ?thesis
    using 1 2
      catalog_load_error_only_on_read[of example_env ?w "''src''" _ "''[{''" "[]"
        "Some (JSONError ''unexpected end of JSON input'')"]
      catalog_load_error_only_on_read[of example_env example_world "''elsewhere''"
        "OSError ''no such file or directory''"] 3
    by simp
qed

text \<open>
  Claim C9. \<^verbatim>\<open>checkCmdF\<close> leaves every file as it is, whatever it returns (nil, the error
  of an outdated catalog or another error) and also when it panics. (It does write to the
  standard output, and it sets \<^verbatim>\<open>SilenceUsage\<close> of the command when the catalog is outdated.)
\<close>

theorem check_leaves_files:
  "files (snd (checkCmdF e fl w)) = files w"
  unfolding checkCmdF_def
  by (simp add: Let_def split: sum.splits option.splits prod.splits)

theorem check_leaves_files_witness:
  "files (snd (checkCmdF example_env example_flags example_world)) = files example_world \<and>
   fst (checkCmdF example_env example_flags example_world)
     = Returned (Some (ErrorsNew ''Translations file out of date.''))"
proof -
  define out where
    "out = fst (checkTranslations (addDynamicallyGeneratedStrings example_discovered) example_catalog)"
  have "''removed.from.code'' |\<notin>| addDynamicallyGeneratedStrings example_discovered"
    by (simp add: fset_addDynamicallyGeneratedStrings example_discovered_def
        dynamicallyGeneratedStrings_def)
  moreover have "''removed.from.code'' \<in> set (sort (map Id' example_catalog))"
    by (simp add: example_catalog_def)
  ultimately have "filter (\<lambda>k. k |\<notin>| addDynamicallyGeneratedStrings example_discovered)
      (sort (map Id' example_catalog)) \<noteq> []"
    unfolding filter_empty_conv by blast
  then have "checkTranslations (addDynamicallyGeneratedStrings example_discovered) example_catalog
      = (out, Some (ErrorsNew ''Translations file out of date.''))"
    by (simp add: out_def checkTranslations_eq)
  then have "fst (checkCmdF example_env example_flags example_world)
     = Returned (Some (ErrorsNew ''Translations file out of date.''))"
    by (simp add: checkCmdF_def example_flags_def example_extractStrings
        example_getCurrentTranslations)
  with check_leaves_files[of example_env example_flags example_world] show ?thesis by simp
qed

end
